theory Spec2Isabelle
  imports Complex_Main
begin

section \<open>Python values and errors\<close>

text \<open>
  The weather summariser is a Python module of pure functions over lists of numbers and
  lists of rows \<open>[date, min, max]\<close>. A number reaching the functions is a Python
  \<open>int\<close> or a Python \<open>float\<close>; every function converts with \<open>float(num)\<close>
  before it computes. Floats are modelled as real numbers with exact arithmetic: binary64
  rounding error, overflow (of the arithmetic, or of an \<open>int\<close> too large for a float), NaN
  and the sign of zero are outside this model, as are numbers arriving as text.
  Exceptions are values of type \<open>error\<close>: \<open>ParseError\<close> is the \<open>ValueError\<close> that
  \<open>datetime.fromisoformat\<close> raises on a malformed date, \<open>ValueError\<close> stands for the other
  \<open>ValueError\<close>s of the built-ins used (\<open>min\<close>/\<open>max\<close> of an empty list, \<open>list.index\<close>
  of an absent value, unpacking an empty tuple), \<open>IndexError\<close> for list indexing out of range.
\<close>

datatype pynum = PyInt int | PyFloat real

datatype error = ParseError | ValueError | IndexError

fun py_float :: "pynum \<Rightarrow> real" where
  "py_float (PyInt n) = of_int n"
| "py_float (PyFloat x) = x"

fun ebind :: "error + 'a \<Rightarrow> ('a \<Rightarrow> error + 'b) \<Rightarrow> error + 'b" where
  "ebind (Inl e) f = Inl e"
| "ebind (Inr x) f = f x"

section \<open>Built-ins: rounding, string conversion, list operations\<close>

text \<open>\<open>round(x, ndigits)\<close> on a float: the nearest multiple of \<open>10 ^ -ndigits\<close>, a tie going
  to the even neighbour.\<close>

definition round_half_even :: "real \<Rightarrow> int" where
  "round_half_even x =
     (let f = \<lfloor>x\<rfloor>; d = x - of_int f
      in if d < 1 / 2 then f else if 1 / 2 < d then f + 1 else if even f then f else f + 1)"

definition py_round :: "real \<Rightarrow> nat \<Rightarrow> real" where
  "py_round x ndigits = of_int (round_half_even (x * 10 ^ ndigits)) / 10 ^ ndigits"

definition digit :: "nat \<Rightarrow> char" where
  "digit d = ''0123456789'' ! d"

text \<open>\<open>str(n)\<close> for an \<open>int\<close>.\<close>

fun str_nat :: "nat \<Rightarrow> string" where
  "str_nat n = (if n < 10 then [digit n] else str_nat (n div 10) @ [digit (n mod 10)])"

declare str_nat.simps [simp del]

definition str_int :: "int \<Rightarrow> string" where
  "str_int i = (if i < 0 then ''-'' @ str_nat (nat (- i)) else str_nat (nat i))"

text \<open>
  \<open>repr(x)\<close> for a float, as an f-string renders it: sign, integer part, a point and the
  fractional digits, at least one and at most seventeen, ending where the expansion ends.
  For the multiples of one tenth, which is all that this program formats, that is Python's
  shortest representation (below \<open>1e16\<close>, where Python switches to exponent notation).
\<close>

fun frac_digits :: "nat \<Rightarrow> real \<Rightarrow> string" where
  "frac_digits 0 r = []"
| "frac_digits (Suc fuel) r =
     (let d = nat \<lfloor>r * 10\<rfloor>; r' = r * 10 - of_nat d
      in digit d # (if r' = 0 then [] else frac_digits fuel r'))"

definition float_repr :: "real \<Rightarrow> string" where
  "float_repr x =
     (let a = \<bar>x\<bar>; n = nat \<lfloor>a\<rfloor>
      in (if x < 0 then ''-'' else []) @ str_nat n @ ''.'' @ frac_digits 17 (a - of_nat n))"

fun py_str :: "pynum \<Rightarrow> string" where
  "py_str (PyInt i) = str_int i"
| "py_str (PyFloat x) = float_repr x"

text \<open>\<open>min(xs)\<close> and \<open>max(xs)\<close> scan from the left and keep the first extreme element;
  both raise on an empty list.\<close>

fun py_min :: "real list \<Rightarrow> error + real" where
  "py_min [] = Inl ValueError"
| "py_min (x # xs) = Inr (foldl (\<lambda>m y. if y < m then y else m) x xs)"

fun py_max :: "real list \<Rightarrow> error + real" where
  "py_max [] = Inl ValueError"
| "py_max (x # xs) = Inr (foldl (\<lambda>m y. if m < y then y else m) x xs)"

text \<open>\<open>xs.index(v)\<close>: the first position holding \<open>v\<close>, or \<open>ValueError\<close>.\<close>

fun py_index :: "real list \<Rightarrow> real \<Rightarrow> error + nat" where
  "py_index [] v = Inl ValueError"
| "py_index (x # xs) v = (if x = v then Inr 0 else ebind (py_index xs v) (\<lambda>i. Inr (Suc i)))"

text \<open>\<open>xs[i]\<close> on a list: an index below zero is taken from the end of the list, and an
  index outside both ranges raises.\<close>

definition py_get :: "'a list \<Rightarrow> int \<Rightarrow> error + 'a" where
  "py_get xs i =
     (if 0 \<le> i \<and> i < int (length xs) then Inr (xs ! nat i)
      else if i < 0 \<and> - int (length xs) \<le> i then Inr (xs ! nat (int (length xs) + i))
      else Inl IndexError)"

text \<open>\<open>sum(xs)\<close> adds from the left, starting at 0.\<close>

definition py_sum :: "real list \<Rightarrow> real" where
  "py_sum xs = foldl (+) 0 xs"

text \<open>\<open>a, b = t\<close> for a tuple that is a pair or empty.\<close>

fun unpack2 :: "('a \<times> 'b) option \<Rightarrow> error + ('a \<times> 'b)" where
  "unpack2 None = Inl ValueError"
| "unpack2 (Some p) = Inr p"

section \<open>The date library\<close>

text \<open>
  \<open>datetime.fromisoformat\<close> and \<open>strftime\<close> are functions of Python's standard library and
  not part of the repository's source; they are modelled from the specification of the date
  formatter. The calendar arithmetic follows the library's \<open>_ymd2ord\<close>.
\<close>

record datetime =
  dt_year :: nat
  dt_month :: nat
  dt_day :: nat

definition is_ascii_digit :: "char \<Rightarrow> bool" where
  "is_ascii_digit c = (c \<in> set ''0123456789'')"

definition digit_value :: "char \<Rightarrow> nat" where
  "digit_value c = of_char c - 48"

definition parse_digits :: "string \<Rightarrow> nat option" where
  "parse_digits s =
     (if s \<noteq> [] \<and> list_all is_ascii_digit s
      then Some (foldl (\<lambda>v c. v * 10 + digit_value c) 0 s) else None)"

definition parse_isoformat_date :: "string \<Rightarrow> (nat \<times> nat \<times> nat) option" where
  "parse_isoformat_date dtstr =
     (if length dtstr = 10 \<and> dtstr ! 4 = CHR ''-'' \<and> dtstr ! 7 = CHR ''-''
      then (case parse_digits (take 4 dtstr) of None \<Rightarrow> None
            | Some y \<Rightarrow> (case parse_digits (take 2 (drop 5 dtstr)) of None \<Rightarrow> None
            | Some m \<Rightarrow> (case parse_digits (drop 8 dtstr) of None \<Rightarrow> None
            | Some d \<Rightarrow> Some (y, m, d))))
      else None)"

definition is_leap :: "nat \<Rightarrow> bool" where
  "is_leap y = (y mod 4 = 0 \<and> (y mod 100 \<noteq> 0 \<or> y mod 400 = 0))"

definition days_in_month :: "nat \<Rightarrow> nat \<Rightarrow> nat" where
  "days_in_month y m =
     (if m = 2 \<and> is_leap y then 29 else [0, 31, 28, 31, 30, 31, 30, 31, 31, 30, 31, 30, 31] ! m)"

definition days_before_year :: "nat \<Rightarrow> nat" where
  "days_before_year y = (let p = y - 1 in p * 365 + p div 4 - p div 100 + p div 400)"

definition days_before_month :: "nat \<Rightarrow> nat \<Rightarrow> nat" where
  "days_before_month y m =
     [0, 0, 31, 59, 90, 120, 151, 181, 212, 243, 273, 304, 334] ! m
       + (if 2 < m \<and> is_leap y then 1 else 0)"

definition ymd2ord :: "nat \<Rightarrow> nat \<Rightarrow> nat \<Rightarrow> nat" where
  "ymd2ord y m d = days_before_year y + days_before_month y m + d"

definition check_date_fields :: "nat \<Rightarrow> nat \<Rightarrow> nat \<Rightarrow> bool" where
  "check_date_fields y m d =
     (1 \<le> y \<and> y \<le> 9999 \<and> 1 \<le> m \<and> m \<le> 12 \<and> 1 \<le> d \<and> d \<le> days_in_month y m)"

text \<open>Modelled from the spec: \<open>datetime.fromisoformat\<close>, which is not in the source. It
  parses the ISO date \<open>YYYY-MM-DD\<close> of the specification (four, two and two ASCII digits
  separated by hyphens, naming a day of the proleptic Gregorian calendar in the years 1 to
  9999) and fails with the parse error on every other string.\<close>

definition fromisoformat :: "string \<Rightarrow> error + datetime" where
  "fromisoformat date_string =
     (case parse_isoformat_date date_string of
        None \<Rightarrow> Inl ParseError
      | Some (y, m, d) \<Rightarrow>
          if check_date_fields y m d
          then Inr \<lparr>dt_year = y, dt_month = m, dt_day = d\<rparr>
          else Inl ParseError)"

text \<open>\<open>weekday()\<close>: Monday is 0.\<close>

definition weekday :: "datetime \<Rightarrow> nat" where
  "weekday dt = (ymd2ord (dt_year dt) (dt_month dt) (dt_day dt) + 6) mod 7"

definition weekday_name :: "nat \<Rightarrow> string" where
  "weekday_name w =
     [''Monday'', ''Tuesday'', ''Wednesday'', ''Thursday'', ''Friday'', ''Saturday'',
      ''Sunday''] ! w"

definition month_name :: "nat \<Rightarrow> string" where
  "month_name m =
     ['''', ''January'', ''February'', ''March'', ''April'', ''May'', ''June'', ''July'',
      ''August'', ''September'', ''October'', ''November'', ''December''] ! m"

definition zfill :: "nat \<Rightarrow> string \<Rightarrow> string" where
  "zfill w s = replicate (w - length s) (CHR ''0'') @ s"

text \<open>Modelled from the spec: \<open>strftime\<close>, which is not in the source, for the directives
  that the program uses: \<open>%A\<close> the full weekday name, \<open>%d\<close> the day of the month with two
  digits, \<open>%B\<close> the full month name, \<open>%Y\<close> the year with four digits.\<close>

definition directive :: "datetime \<Rightarrow> char \<Rightarrow> string" where
  "directive dt c =
     (if c = CHR ''A'' then weekday_name (weekday dt)
      else if c = CHR ''d'' then zfill 2 (str_nat (dt_day dt))
      else if c = CHR ''B'' then month_name (dt_month dt)
      else if c = CHR ''Y'' then zfill 4 (str_nat (dt_year dt))
      else [CHR ''%'', c])"

fun strftime :: "datetime \<Rightarrow> string \<Rightarrow> string" where
  "strftime dt [] = []"
| "strftime dt [c] = [c]"
| "strftime dt (c # d # cs) =
     (if c = CHR ''%'' then directive dt d @ strftime dt cs else c # strftime dt (d # cs))"

section \<open>The program\<close>

definition DEGREE_SYMBOL :: string where
  "DEGREE_SYMBOL = [CHR 0xB0, CHR ''C'']"

definition format_temperature :: "pynum \<Rightarrow> string" where
  "format_temperature temp = py_str temp @ DEGREE_SYMBOL"

definition convert_date :: "string \<Rightarrow> error + string" where
  "convert_date iso_string =
     ebind (fromisoformat iso_string) (\<lambda>date_string.
       Inr (strftime date_string ''%A %d %B %Y''))"

definition convert_f_to_c :: "pynum \<Rightarrow> real" where
  "convert_f_to_c temp_in_fahrenheit =
     (let f = py_float temp_in_fahrenheit;
          celsius = (f - 32) * 5 / 9
      in py_round celsius 1)"

definition calculate_mean :: "pynum list \<Rightarrow> pynum" where
  "calculate_mean weather_data =
     (let ws = map py_float weather_data
      in if ws = [] then PyInt 0 else PyFloat (py_sum ws / of_nat (length ws)))"

text \<open>The empty tuple \<open>()\<close> that \<open>find_min\<close> and \<open>find_max\<close> return on an empty list is
  \<open>None\<close>; a pair \<open>(value, index)\<close> is \<open>Some (value, index)\<close>.\<close>

definition find_min :: "pynum list \<Rightarrow> error + (real \<times> int) option" where
  "find_min weather_data =
     (if weather_data = [] then Inr None
      else
        let ws = map py_float weather_data
        in ebind (py_min ws) (\<lambda>min_value.
           ebind (py_index (rev ws) min_value) (\<lambda>i.
             Inr (Some (min_value, int (length ws) - 1 - int i)))))"

definition find_max :: "pynum list \<Rightarrow> error + (real \<times> int) option" where
  "find_max weather_data =
     (if weather_data = [] then Inr None
      else
        let ws = map py_float weather_data
        in ebind (py_max ws) (\<lambda>max_value.
           ebind (py_index (rev ws) max_value) (\<lambda>i.
             Inr (Some (max_value, int (length ws) - 1 - int i)))))"

text \<open>A row \<open>[date, min, max]\<close> of the dataset.\<close>

type_synonym row = "string \<times> pynum \<times> pynum"

text \<open>The two columns that \<open>generate_summary\<close> extracts, \<open>[day[1] for day in weather_data]\<close>
  and \<open>[day[2] for day in weather_data]\<close>.\<close>

definition min_temps :: "row list \<Rightarrow> pynum list" where
  "min_temps weather_data = map (\<lambda>day. fst (snd day)) weather_data"

definition max_temps :: "row list \<Rightarrow> pynum list" where
  "max_temps weather_data = map (\<lambda>day. snd (snd day)) weather_data"

definition generate_summary :: "row list \<Rightarrow> error + string" where
  "generate_summary weather_data =
     (if weather_data = [] then Inr ''No data available.''
      else
        ebind (ebind (find_min (min_temps weather_data)) unpack2) (\<lambda>(min_temp, min_temp_day).
        ebind (ebind (find_max (max_temps weather_data)) unpack2) (\<lambda>(max_temp, max_temp_day).
        ebind (ebind (py_get weather_data min_temp_day) (\<lambda>day. convert_date (fst day)))
          (\<lambda>min_temp_date.
        ebind (ebind (py_get weather_data max_temp_day) (\<lambda>day. convert_date (fst day)))
          (\<lambda>max_temp_date.
          let min_temp_c = format_temperature (PyFloat (convert_f_to_c (PyFloat min_temp)));
              max_temp_c = format_temperature (PyFloat (convert_f_to_c (PyFloat max_temp)));
              avg_min_temp = format_temperature
                (PyFloat (py_round (convert_f_to_c (calculate_mean (min_temps weather_data))) 1));
              avg_max_temp = format_temperature
                (PyFloat (py_round (convert_f_to_c (calculate_mean (max_temps weather_data))) 1))
          in Inr (str_nat (length weather_data) @ '' Day Overview\<newline>''
               @ ''  The lowest temperature will be '' @ min_temp_c
               @ '', and will occur on '' @ min_temp_date @ ''.\<newline>''
               @ ''  The highest temperature will be '' @ max_temp_c
               @ '', and will occur on '' @ max_temp_date @ ''.\<newline>''
               @ ''  The average low this week is '' @ avg_min_temp @ ''.\<newline>''
               @ ''  The average high this week is '' @ avg_max_temp @ ''.\<newline>''))))))"

text \<open>The loop of \<open>generate_daily_summary\<close>, with the string built so far as accumulator.\<close>

fun daily_loop :: "row list \<Rightarrow> string \<Rightarrow> error + string" where
  "daily_loop [] summary = Inr summary"
| "daily_loop (day # rest) summary =
     ebind (convert_date (fst day)) (\<lambda>date.
       let min_temp_c = convert_f_to_c (fst (snd day));
           max_temp_c = convert_f_to_c (snd (snd day));
           min_temp_str = format_temperature (PyFloat min_temp_c);
           max_temp_str = format_temperature (PyFloat max_temp_c)
       in daily_loop rest
            (summary @ ''---- '' @ date @ '' ----\<newline>''
               @ ''  Minimum Temperature: '' @ min_temp_str @ ''\<newline>''
               @ ''  Maximum Temperature: '' @ max_temp_str @ ''\<newline>\<newline>''))"

definition generate_daily_summary :: "row list \<Rightarrow> error + string" where
  "generate_daily_summary weather_data = daily_loop weather_data ''''"

section \<open>Definitions used by the statements\<close>

text \<open>The number that a list of decimal digits denotes.\<close>

definition digits_value :: "nat list \<Rightarrow> nat" where
  "digits_value ks = foldl (\<lambda>v k. v * 10 + k) 0 ks"

text \<open>The ISO date of the specification, a calendar date string in \<open>YYYY-MM-DD\<close> form:
  the year with four digits, the month and the day with two.\<close>

definition iso_date :: "nat \<Rightarrow> nat \<Rightarrow> nat \<Rightarrow> string" where
  "iso_date y m d =
     zfill 4 (str_nat y) @ ''-'' @ zfill 2 (str_nat m) @ ''-'' @ zfill 2 (str_nat d)"


section \<open>Minimum and maximum with the index of the last occurrence\<close>

lemma foldl_min_eq: "foldl (\<lambda>m y. if y < m then y else m) (x::real) xs = Min (set (x # xs))"
proof -
  have "(\<lambda>m y. if y < m then y else m) = (\<lambda>m (y::real). min y m)"
    by (intro ext) (simp add: min_def)
  then have "foldl (\<lambda>m y. if y < m then y else m) x xs = fold min xs x"
    by (simp add: foldl_conv_fold)
  then show ?thesis using Min.set_eq_fold [of x xs] by simp
qed

lemma foldl_max_eq: "foldl (\<lambda>m y. if m < y then y else m) (x::real) xs = Max (set (x # xs))"
proof -
  have "(\<lambda>m y. if m < y then y else m) = (\<lambda>m (y::real). max y m)"
    by (intro ext) (simp add: max_def)
  then have "foldl (\<lambda>m y. if m < y then y else m) x xs = fold max xs x"
    by (simp add: foldl_conv_fold)
  then show ?thesis using Max.set_eq_fold [of x xs] by simp
qed

lemma py_min_eq: "xs \<noteq> [] \<Longrightarrow> py_min xs = Inr (Min (set xs))"
  by (cases xs) (simp_all only: py_min.simps foldl_min_eq, simp)

lemma py_max_eq: "xs \<noteq> [] \<Longrightarrow> py_max xs = Inr (Max (set xs))"
  by (cases xs) (simp_all only: py_max.simps foldl_max_eq, simp)

lemma py_index_first:
  "v \<in> set xs \<Longrightarrow> \<exists>i. py_index xs v = Inr i \<and> i < length xs \<and> xs ! i = v \<and> (\<forall>j<i. xs ! j \<noteq> v)"
proof (induction xs)
  case Nil
  then show ?case by simp
next
  case (Cons x xs)
  show ?case
  proof (cases "x = v")
    case True
    then show ?thesis by simp
  next
    case False
    with Cons.prems have "v \<in> set xs" by simp
    from Cons.IH [OF this] obtain i where i: "py_index xs v = Inr i" "i < length xs" "xs ! i = v"
      "\<forall>j<i. xs ! j \<noteq> v" by blast
    have "\<forall>j<Suc i. (x # xs) ! j \<noteq> v"
      using False i(4) by (auto simp: nth_Cons split: nat.splits)
    with False i show ?thesis by simp
  qed
qed

lemma last_occurrence:
  assumes "v \<in> set ws"
  shows "\<exists>i. py_index (rev ws) v = Inr (length ws - 1 - i) \<and> i < length ws \<and> ws ! i = v
           \<and> (\<forall>j. i < j \<and> j < length ws \<longrightarrow> ws ! j \<noteq> v)
           \<and> int (length ws) - 1 - int (length ws - 1 - i) = int i"
proof -
  from assms have "v \<in> set (rev ws)" by simp
  from py_index_first [OF this] obtain k where k: "py_index (rev ws) v = Inr k" "k < length ws"
    "rev ws ! k = v" "\<forall>j<k. rev ws ! j \<noteq> v" by auto
  define i where "i = length ws - 1 - k"
  have ik: "i < length ws" "k = length ws - 1 - i" using k(2) by (auto simp: i_def)
  have "ws ! i = v" using k(2,3) by (simp add: rev_nth i_def)
  moreover have "ws ! j \<noteq> v" if "i < j" "j < length ws" for j
  proof -
    have "length ws - 1 - j < k" using that k(2) by (auto simp: i_def)
    then have "rev ws ! (length ws - 1 - j) \<noteq> v" using k(4) by blast
    then show ?thesis using that by (simp add: rev_nth)
  qed
  moreover have "int (length ws) - 1 - int (length ws - 1 - i) = int i" using ik by auto
  ultimately show ?thesis using k(1) ik by blast
qed

lemma find_min_nonempty:
  assumes "weather_data \<noteq> []"
  shows "\<exists>i. find_min weather_data = Inr (Some (Min (set (map py_float weather_data)), int i))
           \<and> i < length weather_data
           \<and> py_float (weather_data ! i) = Min (set (map py_float weather_data))
           \<and> (\<forall>j. i < j \<and> j < length weather_data \<longrightarrow>
                 py_float (weather_data ! j) \<noteq> Min (set (map py_float weather_data)))"
proof -
  define ws where "ws = map py_float weather_data"
  have ne: "ws \<noteq> []" using assms by (simp add: ws_def)
  then have "Min (set ws) \<in> set ws" by (intro Min_in) simp_all
  from last_occurrence [OF this] obtain i where i:
    "py_index (rev ws) (Min (set ws)) = Inr (length ws - 1 - i)" "i < length ws"
    "ws ! i = Min (set ws)" "\<forall>j. i < j \<and> j < length ws \<longrightarrow> ws ! j \<noteq> Min (set ws)"
    "int (length ws) - 1 - int (length ws - 1 - i) = int i" by blast
  have "find_min weather_data = Inr (Some (Min (set ws), int i))"
    using assms i(1,5) by (simp add: find_min_def py_min_eq [OF ne] ws_def [symmetric])
  moreover have "i < length weather_data" using i(2) by (simp add: ws_def)
  moreover have "py_float (weather_data ! i) = Min (set ws)" using i(2,3) by (simp add: ws_def)
  moreover have "\<forall>j. i < j \<and> j < length weather_data \<longrightarrow> py_float (weather_data ! j) \<noteq> Min (set ws)"
    using i(4) by (simp add: ws_def)
  ultimately show ?thesis unfolding ws_def by blast
qed

lemma find_max_nonempty:
  assumes "weather_data \<noteq> []"
  shows "\<exists>i. find_max weather_data = Inr (Some (Max (set (map py_float weather_data)), int i))
           \<and> i < length weather_data
           \<and> py_float (weather_data ! i) = Max (set (map py_float weather_data))
           \<and> (\<forall>j. i < j \<and> j < length weather_data \<longrightarrow>
                 py_float (weather_data ! j) \<noteq> Max (set (map py_float weather_data)))"
proof -
  define ws where "ws = map py_float weather_data"
  have ne: "ws \<noteq> []" using assms by (simp add: ws_def)
  then have "Max (set ws) \<in> set ws" by (intro Max_in) simp_all
  from last_occurrence [OF this] obtain i where i:
    "py_index (rev ws) (Max (set ws)) = Inr (length ws - 1 - i)" "i < length ws"
    "ws ! i = Max (set ws)" "\<forall>j. i < j \<and> j < length ws \<longrightarrow> ws ! j \<noteq> Max (set ws)"
    "int (length ws) - 1 - int (length ws - 1 - i) = int i" by blast
  have "find_max weather_data = Inr (Some (Max (set ws), int i))"
    using assms i(1,5) by (simp add: find_max_def py_max_eq [OF ne] ws_def [symmetric])
  moreover have "i < length weather_data" using i(2) by (simp add: ws_def)
  moreover have "py_float (weather_data ! i) = Max (set ws)" using i(2,3) by (simp add: ws_def)
  moreover have "\<forall>j. i < j \<and> j < length weather_data \<longrightarrow> py_float (weather_data ! j) \<noteq> Max (set ws)"
    using i(4) by (simp add: ws_def)
  ultimately show ?thesis unfolding ws_def by blast
qed




text \<open>
  Claim C6. On the empty list \<open>find_min\<close> and \<open>find_max\<close> return the empty tuple and raise
  nothing; the empty tuple differs from every pair \<open>(value, index)\<close>, and it is returned for
  no other input, so a caller can tell the two apart.
\<close>

theorem find_min_max_empty:
  "find_min [] = Inr None \<and> find_max [] = Inr None
   \<and> (\<forall>p. find_min [] \<noteq> Inr (Some p)) \<and> (\<forall>p. find_max [] \<noteq> Inr (Some p))
   \<and> (find_min weather_data = Inr None \<longleftrightarrow> weather_data = [])
   \<and> (find_max weather_data = Inr None \<longleftrightarrow> weather_data = [])"
proof -
  have e: "find_min [] = Inr None" "find_max [] = Inr None"
    by (simp_all add: find_min_def find_max_def)
  have "find_min weather_data \<noteq> Inr None" "find_max weather_data \<noteq> Inr None"
    if "weather_data \<noteq> []"
    using find_min_nonempty [OF that] find_max_nonempty [OF that] by auto
  with e show ?thesis by auto
qed

theorem find_min_max_empty_witness:
  "find_min [PyInt 7] \<noteq> Inr None \<and> find_max [PyInt 7] \<noteq> Inr None
   \<and> find_min [] = Inr None \<and> find_max [] = Inr None"
  using find_min_max_empty [of "[PyInt 7]"] by simp

section \<open>The reports on an empty dataset\<close>

text \<open>
  Claim C7. \<open>generate_summary\<close> applied to the empty dataset returns exactly the string
  \<open>No data available.\<close>; the guard comes before any statistics, whose empty result on the
  empty column could not be unpacked into a value and an index.
\<close>

theorem generate_summary_empty:
  "generate_summary [] = Inr ''No data available.''
   \<and> ebind (find_min (min_temps [])) unpack2 = Inl ValueError"
  by (simp add: generate_summary_def find_min_def min_temps_def)

text \<open>
  Claim C10. \<open>generate_daily_summary\<close> applied to the empty dataset returns the empty string:
  it has no check for an empty dataset and no message for it.
\<close>

theorem generate_daily_summary_empty: "generate_daily_summary [] = Inr ''''"
  by (simp add: generate_daily_summary_def)

section \<open>Mean and temperature conversion\<close>






lemma round_half_even_tie:
  "y = of_int n + 1 / 2 \<Longrightarrow> even (round_half_even y)"
proof -
  assume y: "y = of_int n + 1 / 2"
  then have "\<lfloor>y\<rfloor> = n" by linarith
  with y show ?thesis by (auto simp: round_half_even_def Let_def)
qed

text \<open>Rounding a rounded value again changes nothing when the arithmetic is exact.\<close>

lemma round_half_even_of_int: "round_half_even (of_int k) = k"
  by (simp add: round_half_even_def)

lemma py_round_idem: "py_round (py_round x n) n = py_round x n"
  by (simp add: py_round_def round_half_even_of_int)




section \<open>Evaluation on concrete inputs\<close>





lemma fromisoformat_0706:
  "fromisoformat ''2021-07-06'' = Inr \<lparr>dt_year = 2021, dt_month = 7, dt_day = 6\<rparr>"
  by (simp add: fromisoformat_def parse_isoformat_date_def parse_digits_def is_ascii_digit_def
      digit_value_def check_date_fields_def days_in_month_def is_leap_def)


lemma weekday_0706: "weekday \<lparr>dt_year = 2021, dt_month = 7, dt_day = 6\<rparr> = 1"
  by (simp add: weekday_def ymd2ord_def days_before_year_def days_before_month_def is_leap_def
      Let_def)


lemma convert_date_0706: "convert_date ''2021-07-06'' = Inr ''Tuesday 06 July 2021''"
  by (simp add: convert_date_def fromisoformat_0706 weekday_0706 directive_def weekday_name_def
      month_name_def zfill_def str_nat.simps digit_def)













section \<open>The overview of a non-empty dataset\<close>










section \<open>The daily summary\<close>


lemma daily_loop_fails:
  "convert_date (fst day) = Inl e \<Longrightarrow> day \<in> set weather_data \<Longrightarrow>
   \<exists>e'. daily_loop weather_data summary = Inl e'"
proof (induction weather_data arbitrary: summary)
  case Nil
  then show ?case by simp
next
  case (Cons d rest)
  show ?case
  proof (cases "convert_date (fst d)")
    case (Inl a)
    then show ?thesis by simp
  next
    case (Inr date)
    with Cons.prems have "day \<in> set rest" by auto
    from Cons.IH [OF Cons.prems(1) this] Inr show ?thesis by (simp add: Let_def)
  qed
qed



section \<open>Decimal digits\<close>

lemma digit_simps:
  "digit 0 = CHR ''0''" "digit 1 = CHR ''1''" "digit 2 = CHR ''2''" "digit 3 = CHR ''3''"
  "digit 4 = CHR ''4''" "digit 5 = CHR ''5''" "digit 6 = CHR ''6''" "digit 7 = CHR ''7''"
  "digit 8 = CHR ''8''" "digit 9 = CHR ''9''"
  by (simp_all add: digit_def)

lemma less_10_cases:
  "k < 10 \<Longrightarrow> k = 0 \<or> k = 1 \<or> k = 2 \<or> k = 3 \<or> k = 4 \<or> k = 5 \<or> k = 6 \<or> k = 7 \<or> k = 8
     \<or> k = (9::nat)"
  by arith

lemma digit_is_ascii_digit: "k < 10 \<Longrightarrow> is_ascii_digit (digit k)"
  by (drule less_10_cases) (auto simp: digit_def is_ascii_digit_def)

lemma digit_value_digit: "k < 10 \<Longrightarrow> digit_value (digit k) = k"
  by (drule less_10_cases) (auto simp: digit_def digit_value_def)

lemma is_ascii_digit_digit:
  "is_ascii_digit c \<Longrightarrow> digit_value c < 10 \<and> digit (digit_value c) = c"
  by (auto simp: is_ascii_digit_def digit_value_def digit_def)

lemma str_nat_digit: "k < 10 \<Longrightarrow> str_nat k = [digit k]"
  by (simp add: str_nat.simps)

lemma str_nat_snoc: "0 < n \<Longrightarrow> k < 10 \<Longrightarrow> str_nat (n * 10 + k) = str_nat n @ [digit k]"
  by (subst str_nat.simps) simp

lemma str_nat_nonempty: "str_nat n \<noteq> []"
  by (subst str_nat.simps) simp

lemma val_zero:
  "digits_value ks = 0 \<Longrightarrow> \<forall>k\<in>set ks. k = 0"
  by (induction ks rule: rev_induct) (simp_all add: digits_value_def)

lemma digits_value_snoc: "digits_value (ks @ [k]) = digits_value ks * 10 + k"
  by (simp add: digits_value_def)

lemma length_str_nat_val:
  "\<forall>k\<in>set ks. k < 10 \<Longrightarrow> ks \<noteq> [] \<Longrightarrow>
     length (str_nat (digits_value ks)) \<le> length ks"
proof (induction ks rule: rev_induct)
  case Nil
  then show ?case by simp
next
  case (snoc k ks)
  let ?v = "digits_value ks"
  have k: "k < 10" using snoc.prems by simp
  show ?case
  proof (cases "?v = 0")
    case True
    then show ?thesis using k by (simp add: str_nat_digit digits_value_snoc)
  next
    case False
    then have "ks \<noteq> []" by (auto simp: digits_value_def)
    with snoc have "length (str_nat ?v) \<le> length ks" by simp
    with False k show ?thesis by (simp add: str_nat_snoc digits_value_snoc)
  qed
qed

lemma zfill_str_nat_val:
  "\<forall>k\<in>set ks. k < 10 \<Longrightarrow> ks \<noteq> [] \<Longrightarrow>
     zfill (length ks) (str_nat (digits_value ks)) = map digit ks"
proof (induction ks rule: rev_induct)
  case Nil
  then show ?case by simp
next
  case (snoc k ks)
  let ?v = "digits_value ks"
  have k: "k < 10" using snoc.prems by simp
  show ?case
  proof (cases "?v = 0")
    case True
    from val_zero [OF True] have "map digit ks = replicate (length ks) (CHR ''0'')"
      by (induction ks) (simp_all add: digit_simps(1))
    with True k show ?thesis by (simp add: str_nat_digit zfill_def digits_value_snoc)
  next
    case False
    then have ne: "ks \<noteq> []" by (auto simp: digits_value_def)
    with snoc have ih: "zfill (length ks) (str_nat ?v) = map digit ks" by simp
    have "length (str_nat ?v) \<le> length ks"
      using length_str_nat_val [of ks] snoc.prems ne by simp
    then have "zfill (length (ks @ [k])) (str_nat ?v @ [digit k])
        = zfill (length ks) (str_nat ?v) @ [digit k]"
      by (simp add: zfill_def Suc_diff_le)
    with False k ih show ?thesis by (simp add: str_nat_snoc digits_value_snoc)
  qed
qed

lemma foldl_digit_value_acc:
  "\<forall>k\<in>set ks. k < 10 \<Longrightarrow>
     foldl (\<lambda>v c. v * 10 + digit_value c) a (map digit ks) = foldl (\<lambda>v k. v * 10 + k) a ks"
  by (induction ks arbitrary: a) (simp_all add: digit_value_digit)

lemma foldl_digit_value:
  "\<forall>k\<in>set ks. k < 10 \<Longrightarrow>
     foldl (\<lambda>v c. v * 10 + digit_value c) 0 (map digit ks) = digits_value ks"
  unfolding digits_value_def by (rule foldl_digit_value_acc)

lemma parse_digits_map_digit:
  "\<forall>k\<in>set ks. k < 10 \<Longrightarrow> ks \<noteq> [] \<Longrightarrow>
     parse_digits (map digit ks) = Some (digits_value ks)"
  by (simp add: parse_digits_def foldl_digit_value list_all_iff digit_is_ascii_digit)

text \<open>Parsing a digit string and printing the number with the same width gives the string.\<close>

lemma parse_digits_print:
  assumes "parse_digits cs = Some n"
  shows "zfill (length cs) (str_nat n) = cs"
proof -
  from assms have ne: "cs \<noteq> []" and dg: "list_all is_ascii_digit cs"
    and n: "n = foldl (\<lambda>v c. v * 10 + digit_value c) 0 cs"
    by (auto simp: parse_digits_def split: if_splits)
  let ?ks = "map digit_value cs"
  have lt: "\<forall>k\<in>set ?ks. k < 10" using dg by (auto simp: list_all_iff is_ascii_digit_digit)
  have cs: "map digit ?ks = cs"
    using dg by (induction cs) (simp_all add: is_ascii_digit_digit)
  have "n = digits_value ?ks"
    using foldl_digit_value [OF lt] by (simp only: n cs)
  with zfill_str_nat_val [OF lt] ne cs show ?thesis by simp
qed

text \<open>Every number below \<open>10 ^ w\<close> has \<open>w\<close> decimal digits.\<close>

lemma digits_exist:
  "0 < w \<Longrightarrow> n < 10 ^ w \<Longrightarrow>
     \<exists>ks. length ks = w \<and> (\<forall>k\<in>set ks. k < 10) \<and> digits_value ks = (n::nat)"
proof (induction w arbitrary: n)
  case 0
  then show ?case by simp
next
  case (Suc w)
  show ?case
  proof (cases "w = 0")
    case True
    with Suc.prems have "n < 10" by simp
    then have "length [n] = Suc w \<and> (\<forall>k\<in>set [n]. k < 10) \<and> digits_value [n] = n"
      using True by (simp add: digits_value_def)
    then show ?thesis by blast
  next
    case False
    from Suc.prems have "n div 10 < 10 ^ w" by (simp add: less_mult_imp_div_less mult.commute)
    with Suc.IH [of "n div 10"] False obtain ks where
      ks: "length ks = w" "\<forall>k\<in>set ks. k < 10" "digits_value ks = n div 10"
      by auto
    then have "length (ks @ [n mod 10]) = Suc w \<and> (\<forall>k\<in>set (ks @ [n mod 10]). k < 10)
        \<and> digits_value (ks @ [n mod 10]) = n"
      by (auto simp: digits_value_snoc)
    then show ?thesis by blast
  qed
qed

lemma print_parse_digits:
  assumes "0 < w" "n < 10 ^ w"
  shows "parse_digits (zfill w (str_nat n)) = Some n \<and> length (zfill w (str_nat n)) = w"
proof -
  from digits_exist [OF assms] obtain ks where
    ks: "length ks = w" "\<forall>k\<in>set ks. k < 10" "digits_value ks = n" by blast
  then have ne: "ks \<noteq> []" using assms(1) by auto
  from zfill_str_nat_val [OF ks(2) ne] ks have "zfill w (str_nat n) = map digit ks" by simp
  with parse_digits_map_digit [OF ks(2) ne] ks show ?thesis by simp
qed


section \<open>Formatting dates\<close>

lemma strftime_format:
  "strftime dt ''%A %d %B %Y''
     = weekday_name (weekday dt) @ '' '' @ zfill 2 (str_nat (dt_day dt)) @ '' ''
       @ month_name (dt_month dt) @ '' '' @ zfill 4 (str_nat (dt_year dt))"
  by (simp add: directive_def)

lemma two_digits: "d < 100 \<Longrightarrow> zfill 2 (str_nat d) = [digit (d div 10), digit (d mod 10)]"
proof -
  assume "d < 100"
  then have "d div 10 < 10" "d mod 10 < 10" by simp_all
  with zfill_str_nat_val [of "[d div 10, d mod 10]"]
  have "zfill (length [d div 10, d mod 10]) (str_nat d) = [digit (d div 10), digit (d mod 10)]"
    by (simp add: digits_value_def)
  moreover have "length [d div 10, d mod 10] = 2" by simp
  ultimately show ?thesis by (simp only:)
qed

lemma days_in_month_le: "1 \<le> m \<Longrightarrow> m \<le> 12 \<Longrightarrow> days_in_month y m \<le> 31"
proof -
  assume "1 \<le> m" "m \<le> 12"
  then have "m = 1 \<or> m = 2 \<or> m = 3 \<or> m = 4 \<or> m = 5 \<or> m = 6 \<or> m = 7 \<or> m = 8 \<or> m = 9
      \<or> m = 10 \<or> m = 11 \<or> m = 12" by arith
  then show ?thesis by (auto simp: days_in_month_def)
qed

lemma list_of_length_4: "length xs = 4 \<Longrightarrow> \<exists>a b c d. xs = [a, b, c, d]"
  by (auto simp: eval_nat_numeral length_Suc_conv)

lemma list_of_length_2: "length xs = 2 \<Longrightarrow> \<exists>a b. xs = [a, b]"
  by (auto simp: eval_nat_numeral length_Suc_conv)

lemma list_of_length_10:
  "length xs = 10 \<Longrightarrow> \<exists>a b c d e f g h i j. xs = [a, b, c, d, e, f, g, h, i, j]"
  by (auto simp: eval_nat_numeral length_Suc_conv)

lemma parse_isoformat_date_iso_date:
  assumes "check_date_fields y m d"
  shows "parse_isoformat_date (iso_date y m d) = Some (y, m, d)"
proof -
  from assms have y: "y < 10 ^ 4" and m: "m < 10 ^ 2" and m12: "1 \<le> m" "m \<le> 12"
    and dm: "d \<le> days_in_month y m"
    by (simp_all add: check_date_fields_def)
  from dm days_in_month_le [OF m12, of y] have d: "d < 10 ^ 2" by simp
  from print_parse_digits [OF _ y] obtain a b c e where
    Y: "zfill 4 (str_nat y) = [a, b, c, e]" "parse_digits [a, b, c, e] = Some y"
    using list_of_length_4 [of "zfill 4 (str_nat y)"] by auto
  from print_parse_digits [OF _ m] obtain f g where
    M: "zfill 2 (str_nat m) = [f, g]" "parse_digits [f, g] = Some m"
    using list_of_length_2 [of "zfill 2 (str_nat m)"] by auto
  from print_parse_digits [OF _ d] obtain h i where
    D: "zfill 2 (str_nat d) = [h, i]" "parse_digits [h, i] = Some d"
    using list_of_length_2 [of "zfill 2 (str_nat d)"] by auto
  show ?thesis
    by (simp add: iso_date_def parse_isoformat_date_def Y M D)
qed

lemma parse_isoformat_date_is_iso_date:
  assumes "parse_isoformat_date s = Some (y, m, d)"
  shows "s = iso_date y m d"
proof -
  from assms have len: "length s = 10"
    by (simp add: parse_isoformat_date_def split: if_splits)
  from list_of_length_10 [OF len] obtain c0 c1 c2 c3 c4 c5 c6 c7 c8 c9 where
    s: "s = [c0, c1, c2, c3, c4, c5, c6, c7, c8, c9]" by blast
  from assms have sep: "c4 = CHR ''-''" "c7 = CHR ''-''"
    and p: "parse_digits [c0, c1, c2, c3] = Some y" "parse_digits [c5, c6] = Some m"
      "parse_digits [c8, c9] = Some d"
    by (auto simp: s parse_isoformat_date_def split: if_splits option.splits)
  have l: "length [c0, c1, c2, c3] = 4" "length [c5, c6] = 2" "length [c8, c9] = 2"
    by simp_all
  from parse_digits_print [OF p(1)] parse_digits_print [OF p(2)] parse_digits_print [OF p(3)]
  have "zfill 4 (str_nat y) = [c0, c1, c2, c3]" "zfill 2 (str_nat m) = [c5, c6]"
    "zfill 2 (str_nat d) = [c8, c9]"
    by (simp_all only: l)
  then show ?thesis by (simp add: iso_date_def s sep)
qed

lemma convert_date_iso_date:
  assumes "check_date_fields y m d"
  shows "convert_date (iso_date y m d)
     = Inr (weekday_name (weekday \<lparr>dt_year = y, dt_month = m, dt_day = d\<rparr>) @ '' ''
         @ [digit (d div 10), digit (d mod 10)] @ '' '' @ month_name m @ '' ''
         @ zfill 4 (str_nat y))"
proof -
  from assms have m12: "1 \<le> m" "m \<le> 12" and dm: "d \<le> days_in_month y m"
    by (simp_all add: check_date_fields_def)
  from dm days_in_month_le [OF m12, of y] have "d < 100" by simp
  then have dd: "zfill 2 (str_nat d) = [digit (d div 10), digit (d mod 10)]" by (rule two_digits)
  have "fromisoformat (iso_date y m d) = Inr \<lparr>dt_year = y, dt_month = m, dt_day = d\<rparr>"
    using assms by (simp add: fromisoformat_def parse_isoformat_date_iso_date)
  then show ?thesis
    by (simp add: convert_date_def strftime_format dd del: strftime.simps)
qed

lemma convert_date_Inr:
  assumes "convert_date s = Inr r"
  shows "\<exists>y m d. check_date_fields y m d \<and> s = iso_date y m d"
proof -
  from assms obtain y m d where "parse_isoformat_date s = Some (y, m, d)"
    and "check_date_fields y m d"
    by (auto simp: convert_date_def fromisoformat_def split: option.splits if_splits)
  with parse_isoformat_date_is_iso_date show ?thesis by blast
qed

lemma convert_date_Inl: "convert_date s = Inl e \<Longrightarrow> e = ParseError"
  by (auto simp: convert_date_def fromisoformat_def split: option.splits if_splits)

text \<open>
  Claim C8. \<open>convert_date\<close> parses an ISO date and renders it as the full weekday name, the
  day of the month with exactly two digits, the full month name and the year, separated by
  single spaces; \<open>2021-07-06\<close> becomes \<open>Tuesday 06 July 2021\<close>. On every string that is
  not the ISO date of a calendar day it fails with the parse error.
\<close>

theorem convert_date_format:
  "(check_date_fields y m d \<longrightarrow>
      convert_date (iso_date y m d)
        = Inr (weekday_name (weekday \<lparr>dt_year = y, dt_month = m, dt_day = d\<rparr>) @ '' ''
            @ [digit (d div 10), digit (d mod 10)] @ '' '' @ month_name m @ '' ''
            @ zfill 4 (str_nat y)))
   \<and> ((\<forall>y m d. check_date_fields y m d \<longrightarrow> iso_string \<noteq> iso_date y m d) \<longrightarrow>
        convert_date iso_string = Inl ParseError)
   \<and> convert_date ''2021-07-06'' = Inr ''Tuesday 06 July 2021''"
proof -
  have "convert_date iso_string = Inl ParseError"
    if "\<forall>y m d. check_date_fields y m d \<longrightarrow> iso_string \<noteq> iso_date y m d"
  proof (cases "convert_date iso_string")
    case (Inl e)
    then show ?thesis using convert_date_Inl by blast
  next
    case (Inr r)
    from convert_date_Inr [OF this] that show ?thesis by blast
  qed
  then show ?thesis using convert_date_iso_date convert_date_0706 by blast
qed


theorem convert_date_format_witness:
  "convert_date (iso_date 2020 2 29) = Inr ''Saturday 29 February 2020''
   \<and> convert_date ''2021-02-29'' = Inl ParseError
   \<and> convert_date ''06/07/2021'' = Inl ParseError"
proof -
  have ok: "check_date_fields 2020 2 29"
    by (simp add: check_date_fields_def days_in_month_def is_leap_def)
  have wd: "weekday \<lparr>dt_year = 2020, dt_month = 2, dt_day = 29\<rparr> = 5"
    by (simp add: weekday_def ymd2ord_def days_before_year_def days_before_month_def is_leap_def
        Let_def)
  have "convert_date (iso_date 2020 2 29) = Inr ''Saturday 29 February 2020''"
    using convert_date_format [of 2020 2 29] ok
    by (simp add: wd weekday_name_def month_name_def zfill_def str_nat.simps digit_def)
  moreover have "convert_date ''2021-02-29'' = Inl ParseError"
  proof -
    have p: "parse_isoformat_date ''2021-02-29'' = Some (2021, 2, 29)"
      by (simp add: parse_isoformat_date_def parse_digits_def is_ascii_digit_def digit_value_def)
    have bad: "\<not> check_date_fields 2021 2 29"
      by (simp add: check_date_fields_def days_in_month_def is_leap_def)
    have "\<forall>y m d. check_date_fields y m d \<longrightarrow> ''2021-02-29'' \<noteq> iso_date y m d"
    proof (intro allI impI notI)
      fix y m d assume c: "check_date_fields y m d" and e: "''2021-02-29'' = iso_date y m d"
      from parse_isoformat_date_iso_date [OF c] e p have "y = 2021 \<and> m = 2 \<and> d = 29" by simp
      with c bad show False by simp
    qed
    with convert_date_format [of _ _ _ "''2021-02-29''"] show ?thesis by blast
  qed
  moreover have "convert_date ''06/07/2021'' = Inl ParseError"
  proof -
    have p: "parse_isoformat_date ''06/07/2021'' = None"
      by (simp add: parse_isoformat_date_def)
    have "\<forall>y m d. check_date_fields y m d \<longrightarrow> ''06/07/2021'' \<noteq> iso_date y m d"
    proof (intro allI impI notI)
      fix y m d assume c: "check_date_fields y m d" and e: "''06/07/2021'' = iso_date y m d"
      from parse_isoformat_date_iso_date [OF c] e p show False by simp
    qed
    with convert_date_format [of _ _ _ "''06/07/2021''"] show ?thesis by blast
  qed
  ultimately show ?thesis by blast
qed

end
